theory Spec2Isabelle
  imports Main
begin

section \<open>Python string primitives used by the hook\<close>

text \<open>
  The hook \<^verbatim>\<open>scripts/external_link_checker.py\<close> works on Python \<^verbatim>\<open>str\<close> values.
  They are modelled as \<^typ>\<open>string\<close> (lists of 8-bit characters), that is, as
  strings whose code points are below 256. Exceptions are values of a sum type:
  the only exception the hook can meet is the \<^verbatim>\<open>ValueError\<close> of
  \<^verbatim>\<open>urllib.parse.urlparse\<close>.
\<close>

datatype error = ValueError

text \<open>\<^verbatim>\<open>s.startswith(p)\<close>, also \<^verbatim>\<open>s[:len(p)] == p\<close>.\<close>

definition startswith :: "string \<Rightarrow> string \<Rightarrow> bool" where
  "startswith s p \<longleftrightarrow> take (length p) s = p"

text \<open>\<^verbatim>\<open>old in s\<close> (substring test).\<close>

fun contains :: "string \<Rightarrow> string \<Rightarrow> bool" where
  "contains old [] = (old = [])"
| "contains old (c # cs) = (startswith (c # cs) old \<or> contains old cs)"

text \<open>
  \<^verbatim>\<open>s.replace(old, new)\<close>: every non-overlapping occurrence of \<^verbatim>\<open>old\<close>, found from
  left to right, is replaced. \<open>replace_scan\<close> is the scan for a non-empty \<^verbatim>\<open>old\<close>
  (after a hit at \<open>c # cs\<close> it resumes \<open>length old\<close> characters further).
\<close>

fun replace_scan :: "string \<Rightarrow> string \<Rightarrow> string \<Rightarrow> string" where
  "replace_scan old new [] = []"
| "replace_scan old new (c # cs) =
     (if startswith (c # cs) old
      then new @ replace_scan old new (drop (length old - 1) cs)
      else c # replace_scan old new cs)"

definition str_replace :: "string \<Rightarrow> string \<Rightarrow> string \<Rightarrow> string" where
  "str_replace old new s =
     (if old = [] then new @ concat (map (\<lambda>c. c # new) s)
      else replace_scan old new s)"

section \<open>The authority of a URL: \<^verbatim>\<open>urlparse(url).netloc\<close>\<close>

text \<open>
  The hook reads only the \<^verbatim>\<open>netloc\<close> field of \<^verbatim>\<open>urllib.parse.urlparse(url)\<close>.
  The definitions below follow \<^verbatim>\<open>urlsplit\<close> of CPython 3.11 step by step, as far as
  the field and the exceptions are concerned:
  \<^item> \<^verbatim>\<open>url.lstrip(_WHATWG_C0_CONTROL_OR_SPACE)\<close>: leading characters up to \<^verbatim>\<open>0x20\<close> go;
  \<^item> the characters of \<^verbatim>\<open>_UNSAFE_URL_BYTES_TO_REMOVE\<close> (tab, CR, LF) are removed;
  \<^item> \<^verbatim>\<open>i = url.find(':')\<close>; a scheme \<^verbatim>\<open>url[:i]\<close> is split off when \<^verbatim>\<open>i > 0\<close>,
    \<^verbatim>\<open>url[0]\<close> is an ASCII letter and all of \<^verbatim>\<open>url[:i]\<close> is in \<^verbatim>\<open>scheme_chars\<close>;
  \<^item> if the rest starts with \<^verbatim>\<open>//\<close>, \<^verbatim>\<open>_splitnetloc(url, 2)\<close> takes the characters
    after it up to the first of \<^verbatim>\<open>/\<close>, \<^verbatim>\<open>?\<close>, \<^verbatim>\<open>#\<close>;
  \<^item> a netloc with only one kind of square bracket raises
    \<^verbatim>\<open>ValueError("Invalid IPv6 URL")\<close>; with both kinds,
    \<^verbatim>\<open>_check_bracketed_host\<close> is run on the text between the first \<^verbatim>\<open>[\<close> and the
    next \<^verbatim>\<open>]\<close>;
  \<^item> \<^verbatim>\<open>_checknetloc\<close> raises only when NFKC normalisation of a non-ASCII netloc
    produces one of \<^verbatim>\<open>/?#@:\<close>, which no code point below 256 does: on the strings
    modelled here it never raises.

  \<^verbatim>\<open>_check_bracketed_host\<close> calls \<^verbatim>\<open>ipaddress.ip_address\<close> when the host does not
  start with \<^verbatim>\<open>v\<close>. That parser is taken as a parameter \<open>ipv6_ok\<close>: \<open>ipv6_ok h\<close> says
  that \<^verbatim>\<open>ipaddress.ip_address(h)\<close> returns an IPv6 address (otherwise
  \<^verbatim>\<open>ValueError\<close> is raised).
\<close>

definition c0_control_or_space :: "char \<Rightarrow> bool" where
  "c0_control_or_space c \<longleftrightarrow> (of_char c :: nat) \<le> 0x20"

definition unsafe_url_byte :: "char \<Rightarrow> bool" where
  "unsafe_url_byte c \<longleftrightarrow> c \<in> {CHR 0x09, CHR 0x0D, CHR 0x0A}"

definition ascii_letters :: string where
  "ascii_letters = ''abcdefghijklmnopqrstuvwxyzABCDEFGHIJKLMNOPQRSTUVWXYZ''"

definition scheme_chars :: string where
  "scheme_chars = ''abcdefghijklmnopqrstuvwxyzABCDEFGHIJKLMNOPQRSTUVWXYZ0123456789+-.''"

definition hex_digits :: string where
  "hex_digits = ''abcdefABCDEF0123456789''"

text \<open>The rest of the URL once a scheme has been split off (the scheme is not used).\<close>

definition strip_scheme :: "string \<Rightarrow> string" where
  "strip_scheme url =
     (let pre = takeWhile (\<lambda>c. c \<noteq> CHR '':'') url in
      if CHR '':'' \<in> set url \<and> pre \<noteq> [] \<and> hd url \<in> set ascii_letters
         \<and> list_all (\<lambda>c. c \<in> set scheme_chars) pre
      then drop (length pre + 1) url
      else url)"

text \<open>\<^verbatim>\<open>_splitnetloc(url, 2)[0]\<close>.\<close>

definition splitnetloc :: "string \<Rightarrow> string" where
  "splitnetloc url = takeWhile (\<lambda>c. c \<notin> set ''/?#'') (drop 2 url)"

text \<open>
  \<^verbatim>\<open>_check_bracketed_host\<close>: \<open>True\<close> when it returns, \<open>False\<close> when it raises. In the
  \<^verbatim>\<open>v\<close> branch the host must match \<^verbatim>\<open>\Av[a-fA-F0-9]+\..+\Z\<close>: the longest run of
  hexadecimal digits after the \<^verbatim>\<open>v\<close> is not empty and is followed by a dot and at
  least one more character, none of them a line feed.
\<close>

definition check_bracketed_host :: "(string \<Rightarrow> bool) \<Rightarrow> string \<Rightarrow> bool" where
  "check_bracketed_host ipv6_ok h =
     (if startswith h ''v''
      then (let hex = takeWhile (\<lambda>c. c \<in> set hex_digits) (tl h);
                rest = dropWhile (\<lambda>c. c \<in> set hex_digits) (tl h)
            in hex \<noteq> [] \<and> startswith rest ''.'' \<and> tl rest \<noteq> []
               \<and> CHR 0x0A \<notin> set (tl rest))
      else ipv6_ok h)"

text \<open>\<^verbatim>\<open>netloc.partition('[')[2].partition(']')[0]\<close>.\<close>

definition bracketed_host :: "string \<Rightarrow> string" where
  "bracketed_host netloc =
     takeWhile (\<lambda>c. c \<noteq> CHR '']'') (tl (dropWhile (\<lambda>c. c \<noteq> CHR ''['') netloc))"

definition urlparse_netloc :: "(string \<Rightarrow> bool) \<Rightarrow> string \<Rightarrow> error + string" where
  "urlparse_netloc ipv6_ok url0 =
     (let url1 = dropWhile c0_control_or_space url0;
          url2 = filter (\<lambda>c. \<not> unsafe_url_byte c) url1;
          url3 = strip_scheme url2
      in if take 2 url3 = ''//''
         then (let netloc = splitnetloc url3 in
               if (CHR ''['' \<in> set netloc \<and> CHR '']'' \<notin> set netloc)
                  \<or> (CHR '']'' \<in> set netloc \<and> CHR ''['' \<notin> set netloc)
               then Inl ValueError
               else if CHR ''['' \<in> set netloc \<and> CHR '']'' \<in> set netloc
                       \<and> \<not> check_bracketed_host ipv6_ok (bracketed_host netloc)
               then Inl ValueError
               else Inr netloc)
         else Inr [])"

section \<open>The regular expression and \<^verbatim>\<open>re.sub\<close>\<close>

text \<open>
  \<^verbatim>\<open>link_pattern = r'<a\s+[^>]*href=["\']([^"\']+)["\'][^>]*>'\<close> is a sequence of
  literals, single characters from a class, greedy repetitions of a class, and one
  capturing group. \<open>re_run\<close> is the backtracking matcher of \<^verbatim>\<open>re\<close> on such
  sequences: a greedy repetition first tries to take one more character and falls
  back to the rest of the pattern when that fails, so the first match in
  \<^verbatim>\<open>re\<close>'s priority order is returned. It threads the position reached and the
  span of group 1.
\<close>

datatype item =
    Lit string
  | One "char \<Rightarrow> bool"
  | Star "char \<Rightarrow> bool"
  | Plus "char \<Rightarrow> bool"
  | GroupOpen
  | GroupClose

fun re_run :: "item list \<Rightarrow> string \<Rightarrow> nat \<Rightarrow> nat \<times> nat \<Rightarrow> (nat \<times> nat \<times> nat) option" where
  "re_run [] s pos (a, b) = Some (pos, a, b)"
| "re_run (Lit l # is) s pos g =
     (if startswith s l then re_run is (drop (length l) s) (pos + length l) g else None)"
| "re_run (One P # is) [] pos g = None"
| "re_run (One P # is) (c # cs) pos g = (if P c then re_run is cs (Suc pos) g else None)"
| "re_run (Star P # is) [] pos g = re_run is [] pos g"
| "re_run (Star P # is) (c # cs) pos g =
     (if P c
      then (case re_run (Star P # is) cs (Suc pos) g of
              Some r \<Rightarrow> Some r
            | None \<Rightarrow> re_run is (c # cs) pos g)
      else re_run is (c # cs) pos g)"
| "re_run (Plus P # is) [] pos g = None"
| "re_run (Plus P # is) (c # cs) pos g =
     (if P c then re_run (Star P # is) cs (Suc pos) g else None)"
| "re_run (GroupOpen # is) s pos (a, b) = re_run is s pos (pos, b)"
| "re_run (GroupClose # is) s pos (a, b) = re_run is s pos (a, pos)"

text \<open>
  \<^verbatim>\<open>pattern.match(s)\<close> at the start of \<open>s\<close>: \<^verbatim>\<open>group(0)\<close>, \<^verbatim>\<open>group(1)\<close> and the text
  after the match.
\<close>

definition re_match :: "item list \<Rightarrow> string \<Rightarrow> (string \<times> string \<times> string) option" where
  "re_match pat s =
     (case re_run pat s 0 (0, 0) of
        None \<Rightarrow> None
      | Some (e, a, b) \<Rightarrow> Some (take e s, take (b - a) (drop a s), drop e s))"

text \<open>The character classes of the pattern; \<^verbatim>\<open>\s\<close> is the Unicode class of \<^verbatim>\<open>str\<close> patterns.\<close>

definition re_space :: "char \<Rightarrow> bool" where
  "re_space c \<longleftrightarrow>
     (let n = (of_char c :: nat) in (9 \<le> n \<and> n \<le> 13) \<or> (28 \<le> n \<and> n \<le> 32) \<or> n = 133 \<or> n = 160)"

definition not_gt :: "char \<Rightarrow> bool" where
  "not_gt c \<longleftrightarrow> c \<noteq> CHR ''>''"

definition is_quote :: "char \<Rightarrow> bool" where
  "is_quote c \<longleftrightarrow> c = CHR 0x22 \<or> c = CHR 0x27"

definition not_quote :: "char \<Rightarrow> bool" where
  "not_quote c \<longleftrightarrow> \<not> is_quote c"

definition link_pattern :: "item list" where
  "link_pattern =
     [Lit ''<a'', Plus re_space, Star not_gt, Lit ''href='', One is_quote,
      GroupOpen, Plus not_quote, GroupClose, One is_quote, Star not_gt, Lit ''>'']"

text \<open>
  \<^verbatim>\<open>re.sub(pattern, repl, s)\<close> with a function \<^verbatim>\<open>repl\<close>, which gets \<^verbatim>\<open>group(0)\<close> and
  \<^verbatim>\<open>group(1)\<close> of each match: the scan goes from left to right, a match is replaced
  and the scan resumes after it, a character where no match starts is copied. An
  exception raised by \<^verbatim>\<open>repl\<close> ends the call. The model covers patterns that match
  no empty string, as \<open>link_pattern\<close> (lemma \<open>link_pattern_match_length\<close>): an
  empty match is treated as no match.
\<close>

function re_sub :: "item list \<Rightarrow> (string \<Rightarrow> string \<Rightarrow> error + string) \<Rightarrow> string \<Rightarrow> error + string" where
  "re_sub pat repl [] = Inr []"
| "re_sub pat repl (c # cs) =
     (case re_match pat (c # cs) of
        None \<Rightarrow> (case re_sub pat repl cs of Inl e \<Rightarrow> Inl e | Inr t \<Rightarrow> Inr (c # t))
      | Some (m, g, rest) \<Rightarrow>
          if m = [] then (case re_sub pat repl cs of Inl e \<Rightarrow> Inl e | Inr t \<Rightarrow> Inr (c # t))
          else (case repl m g of
                  Inl e \<Rightarrow> Inl e
                | Inr r \<Rightarrow> (case re_sub pat repl (drop (length m) (c # cs)) of
                             Inl e \<Rightarrow> Inl e
                           | Inr t \<Rightarrow> Inr (r @ t))))"
  by pat_completeness auto
termination
  by (relation "measure (\<lambda>(pat, repl, s). length s)") auto

text \<open>
  \<^verbatim>\<open>pattern.finditer(s)\<close>, as the list of \<^verbatim>\<open>group(0)\<close> and \<^verbatim>\<open>group(1)\<close> of the matches:
  the matches that \<^verbatim>\<open>re.sub\<close> visits, found by the same scan. It names the matched
  anchors of a page and their \<^verbatim>\<open>href\<close> values.
\<close>

function re_finditer :: "item list \<Rightarrow> string \<Rightarrow> (string \<times> string) list" where
  "re_finditer pat [] = []"
| "re_finditer pat (c # cs) =
     (case re_match pat (c # cs) of
        None \<Rightarrow> re_finditer pat cs
      | Some (m, g, rest) \<Rightarrow>
          if m = [] then re_finditer pat cs
          else (m, g) # re_finditer pat (drop (length m) (c # cs)))"
  by pat_completeness auto
termination
  by (relation "measure (\<lambda>(pat, s). length s)") auto

section \<open>The hook\<close>

text \<open>
  \<^verbatim>\<open>config\<close> is a dictionary; \<^verbatim>\<open>config.get('site_url', '')\<close> is a string or \<^verbatim>\<open>None\<close>
  (MkDocs stores \<^verbatim>\<open>None\<close> for an unset \<^verbatim>\<open>site_url\<close>). Both \<^verbatim>\<open>None\<close> and the empty
  string are false in \<^verbatim>\<open>if site_url:\<close>.
\<close>

datatype pyval = PyNone | PyStr string

type_synonym config = "string \<rightharpoonup> pyval"

definition config_get :: "config \<Rightarrow> string \<Rightarrow> pyval \<Rightarrow> pyval" where
  "config_get config key dflt = (case config key of None \<Rightarrow> dflt | Some v \<Rightarrow> v)"

fun truthy :: "pyval \<Rightarrow> bool" where
  "truthy PyNone = False"
| "truthy (PyStr s) = (s \<noteq> [])"

fun str_of :: "pyval \<Rightarrow> string" where
  "str_of PyNone = []"
| "str_of (PyStr s) = s"

definition target_attr :: string where
  "target_attr = ''target=\"_blank\" href=''"

definition rel_attr :: string where
  "rel_attr = ''rel=\"noopener noreferrer\" href=''"

text \<open>The two conditional \<^verbatim>\<open>replace\<close> statements of \<^verbatim>\<open>replace_external_link\<close>.\<close>

definition add_attributes :: "string \<Rightarrow> string" where
  "add_attributes full_match =
     (let fm1 = (if \<not> contains ''target='' full_match
                 then str_replace ''href='' target_attr full_match else full_match);
          fm2 = (if \<not> contains ''rel='' fm1
                 then str_replace ''href='' rel_attr fm1 else fm1)
      in fm2)"

definition replace_external_link ::
  "(string \<Rightarrow> bool) \<Rightarrow> config \<Rightarrow> string \<Rightarrow> string \<Rightarrow> error + string" where
  "replace_external_link ipv6_ok config full_match href =
     (case urlparse_netloc ipv6_ok href of
        Inl e \<Rightarrow> Inl e
      | Inr netloc \<Rightarrow>
          if netloc \<noteq> [] \<and> netloc \<notin> set [''localhost'', ''127.0.0.1'']
          then (let site_url = config_get config ''site_url'' (PyStr []) in
                if truthy site_url
                then (case urlparse_netloc ipv6_ok (str_of site_url) of
                        Inl e \<Rightarrow> Inl e
                      | Inr site_domain \<Rightarrow>
                          if netloc \<noteq> site_domain then Inr (add_attributes full_match)
                          else Inr full_match)
                else Inr full_match)
          else Inr full_match)"

text \<open>
  \<^verbatim>\<open>on_page_content(html, page, config, files)\<close>; \<^verbatim>\<open>page\<close> and \<^verbatim>\<open>files\<close> are of any
  type.
\<close>

definition on_page_content ::
  "(string \<Rightarrow> bool) \<Rightarrow> string \<Rightarrow> 'page \<Rightarrow> config \<Rightarrow> 'files \<Rightarrow> error + string" where
  "on_page_content ipv6_ok html page config files =
     re_sub link_pattern (replace_external_link ipv6_ok config) html"

text \<open>
  The specification's \<^verbatim>\<open>annotate(html, siteURL)\<close> is \<^verbatim>\<open>on_page_content\<close> with a
  configuration whose \<^verbatim>\<open>site_url\<close> entry is \<^verbatim>\<open>siteURL\<close>.
\<close>

definition annotate :: "(string \<Rightarrow> bool) \<Rightarrow> string \<Rightarrow> string \<Rightarrow> error + string" where
  "annotate ipv6_ok html siteURL =
     on_page_content ipv6_ok html () [''site_url'' \<mapsto> PyStr siteURL] ()"

section \<open>Notions used to state the properties\<close>

text \<open>\<^verbatim>\<open>sep.join(parts)\<close>: a tag is written \<open>join ''href='' parts\<close> to name the occurrences of
  \<^verbatim>\<open>href=\<close> in it.\<close>

fun join :: "string \<Rightarrow> string list \<Rightarrow> string" where
  "join sep [] = []"
| "join sep [p] = p"
| "join sep (p # q # ps) = p @ sep @ join sep (q # ps)"

text \<open>The attribute text that a tag lacks: \<^verbatim>\<open>target="_blank"\<close> when \<^verbatim>\<open>target=\<close> does not
  occur in it, then \<^verbatim>\<open>rel="noopener noreferrer"\<close> when \<^verbatim>\<open>rel=\<close> does not occur in it.\<close>

definition missing_directives :: "string \<Rightarrow> string" where
  "missing_directives full_match =
     (if contains ''target='' full_match then [] else ''target=\"_blank\" '')
     @ (if contains ''rel='' full_match then [] else ''rel=\"noopener noreferrer\" '')"

section \<open>Facts about the string primitives\<close>

lemma error_is_ValueError: "(e::error) = ValueError"
  by (cases e)

lemma suffix_induct [case_names Nil Cons]:
  assumes "P []"
    and "\<And>c cs. (\<And>s'. length s' \<le> length cs \<Longrightarrow> P s') \<Longrightarrow> P (c # cs)"
  shows "P s"
proof (induction s rule: length_induct)
  case (1 xs)
  show ?case
  proof (cases xs)
    case Nil
    with assms(1) show ?thesis by simp
  next
    case (Cons c cs)
    have "P (c # cs)" by (rule assms(2)) (simp add: 1 Cons)
    with Cons show ?thesis by simp
  qed
qed

lemma startswith_length: "startswith s p \<Longrightarrow> length p \<le> length s"
proof -
  assume "startswith s p"
  then have "length (take (length p) s) = length p" by (simp add: startswith_def)
  then show ?thesis by simp
qed

lemma startswith_split: "startswith s p \<Longrightarrow> s = p @ drop (length p) s"
  unfolding startswith_def by (metis append_take_drop_id)

lemma startswith_Nil [simp]: "startswith s []"
  by (simp add: startswith_def)

lemma startswith_Nil_left [simp]: "startswith [] p \<longleftrightarrow> p = []"
  by (auto simp: startswith_def)

lemma startswith_Cons [simp]: "startswith (c # s) (a # x) \<longleftrightarrow> c = a \<and> startswith s x"
  by (auto simp: startswith_def)

text \<open>Appending \<open>q\<close> creates no new occurrence at the seam when \<open>q\<close> starts with a
  character that is not in the pattern.\<close>

lemma startswith_append_short:
  assumes "q \<noteq> [] \<Longrightarrow> hd q \<notin> set x"
  shows "startswith (p @ q) x \<longleftrightarrow> startswith p x"
  using assms
proof (induction p arbitrary: x)
  case Nil
  then show ?case by (cases q; cases x) auto
next
  case (Cons c p)
  show ?case
  proof (cases x)
    case Nil
    then show ?thesis by simp
  next
    case x: (Cons a x')
    have "startswith (p @ q) x' \<longleftrightarrow> startswith p x'"
      by (rule Cons.IH) (use Cons.prems x in auto)
    then show ?thesis unfolding x by simp
  qed
qed

lemma replace_scan_hit:
  "old \<noteq> [] \<Longrightarrow> replace_scan old new (old @ s) = new @ replace_scan old new s"
  by (cases old) (simp_all add: startswith_def)

lemma replace_scan_miss:
  "\<not> startswith (c # cs) old \<Longrightarrow> replace_scan old new (c # cs) = c # replace_scan old new cs"
  by simp

lemma replace_scan_href [simp]:
  "replace_scan ''href='' new (CHR ''h'' # CHR ''r'' # CHR ''e'' # CHR ''f'' # CHR ''='' # s)
     = new @ replace_scan ''href='' new s"
  using replace_scan_hit[of "''href=''" new s] by simp

declare replace_scan.simps(2) [simp del]

text \<open>The scan does not change whether the text starts with \<open>x\<close>, when \<open>x\<close> has no
  \<^verbatim>\<open>h\<close> and not the first character of the inserted text.\<close>

lemma startswith_replace_scan:
  assumes "CHR ''h'' \<notin> set x" and "new \<noteq> []" and "hd new \<notin> set x"
  shows "startswith (replace_scan ''href='' new s) x \<longleftrightarrow> startswith s x"
  using assms
proof (induction x arbitrary: s)
  case Nil
  show ?case by simp
next
  case (Cons a x)
  show ?case
  proof (cases s)
    case Nil
    then show ?thesis by simp
  next
    case s: (Cons c cs)
    obtain n ns where new: "new = n # ns" using \<open>new \<noteq> []\<close> by (cases new) auto
    show ?thesis
    proof (cases "startswith (c # cs) ''href=''")
      case True
      from startswith_split[OF True] obtain r where r: "c # cs = ''href='' @ r" by blast
      then have c: "c = CHR ''h''" by simp
      have "replace_scan ''href='' new (c # cs) = n # ns @ replace_scan ''href='' new r"
        unfolding r by (simp add: new)
      with c Cons.prems new show ?thesis unfolding s by simp
    next
      case False
      from Cons.IH[of cs] Cons.prems show ?thesis
        unfolding s replace_scan_miss[OF False] by simp
    qed
  qed
qed

lemma contains_rel_skip_href: "contains ''rel='' (''href='' @ s) = contains ''rel='' s"
  by simp

lemma contains_rel_skip_target: "contains ''rel='' (target_attr @ s) = contains ''rel='' s"
  by (simp add: target_attr_def)

text \<open>Inserting the \<^verbatim>\<open>target\<close> attribute does not change whether \<^verbatim>\<open>rel=\<close> occurs: the
  second test of \<^verbatim>\<open>replace_external_link\<close> could as well look at the matched tag.\<close>

lemma contains_rel_replace_scan:
  "contains ''rel='' (replace_scan ''href='' target_attr s) = contains ''rel='' s"
proof (induction s rule: suffix_induct)
  case Nil
  show ?case by simp
next
  case (Cons c cs)
  show ?case
  proof (cases "startswith (c # cs) ''href=''")
    case True
    from startswith_split[OF True] obtain r where r: "c # cs = ''href='' @ r" by blast
    have "contains ''rel='' (replace_scan ''href='' target_attr r) = contains ''rel='' r"
      by (rule Cons) (use r in simp)
    then show ?thesis
      unfolding r by (simp add: contains_rel_skip_target)
  next
    case False
    have "contains ''rel='' (replace_scan ''href='' target_attr cs) = contains ''rel='' cs"
      by (rule Cons) simp
    moreover have "startswith (replace_scan ''href='' target_attr cs) ''el='' \<longleftrightarrow> startswith cs ''el=''"
      by (rule startswith_replace_scan) (simp_all add: target_attr_def)
    ultimately show ?thesis unfolding replace_scan_miss[OF False] by simp
  qed
qed

lemma replace_scan_prefix:
  assumes "\<not> contains ''href='' p" and "q \<noteq> [] \<Longrightarrow> hd q \<notin> set ''ref=''"
  shows "replace_scan ''href='' new (p @ q) = p @ replace_scan ''href='' new q"
  using assms(1)
proof (induction p)
  case Nil
  show ?case by simp
next
  case (Cons c p)
  then have miss: "\<not> startswith (c # p) ''href=''" and rest: "\<not> contains ''href='' p"
    by simp_all
  have "startswith (p @ q) ''ref='' \<longleftrightarrow> startswith p ''ref=''"
    by (rule startswith_append_short) (rule assms(2))
  with miss have "\<not> startswith (c # p @ q) ''href=''" by simp
  then show ?case using Cons.IH[OF rest] by (simp add: replace_scan_miss del: startswith_Cons)
qed

lemma replace_scan_absent:
  "\<not> contains ''href='' p \<Longrightarrow> replace_scan ''href='' new p = p"
  using replace_scan_prefix[of p "[]" new] by simp

text \<open>\<^verbatim>\<open>s.replace(old, new) == new.join(s.split(old))\<close>, for \<^verbatim>\<open>old = 'href='\<close>.\<close>

lemma replace_scan_join:
  assumes "parts \<noteq> []" and "\<forall>p \<in> set parts. \<not> contains ''href='' p"
  shows "replace_scan ''href='' new (join ''href='' parts) = join new parts"
  using assms
proof (induction "''href=''" parts rule: join.induct)
  case 1
  then show ?case by simp
next
  case (2 p)
  then show ?case by (simp add: replace_scan_absent)
next
  case (3 p q ps)
  have "replace_scan ''href='' new (p @ ''href='' @ join ''href='' (q # ps))
        = p @ replace_scan ''href='' new (''href='' @ join ''href='' (q # ps))"
    by (rule replace_scan_prefix) (use 3 in simp_all)
  with 3 show ?case by simp
qed

text \<open>Every text splits at its occurrences of \<^verbatim>\<open>href=\<close> (\<^verbatim>\<open>s.split('href=')\<close>).\<close>

lemma startswith_appendI: "startswith p x \<Longrightarrow> startswith (p @ q) x"
  using startswith_length[of p x] by (simp add: startswith_def)

lemma join_Cons_append:
  "ps \<noteq> [] \<Longrightarrow> join sep (p # ps) = p @ sep @ join sep ps"
  by (cases ps) simp_all

lemma join_extend_head: "join sep ((c # p) # ps) = c # join sep (p # ps)"
  by (cases ps) simp_all

lemma href_parts_exist:
  "\<exists>parts. parts \<noteq> [] \<and> (\<forall>p \<in> set parts. \<not> contains ''href='' p) \<and> m = join ''href='' parts"
proof (induction m rule: suffix_induct)
  case Nil
  have "[[]] \<noteq> [] \<and> (\<forall>p \<in> set [[]]. \<not> contains ''href='' p) \<and> [] = join ''href='' [[]]"
    by simp
  then show ?case by blast
next
  case (Cons c cs)
  show ?case
  proof (cases "startswith (c # cs) ''href=''")
    case True
    from startswith_split[OF True] obtain r where r: "c # cs = ''href='' @ r" by blast
    have "\<exists>parts. parts \<noteq> [] \<and> (\<forall>p \<in> set parts. \<not> contains ''href='' p) \<and> r = join ''href='' parts"
      by (rule Cons) (use r in simp)
    then obtain ps where ps: "ps \<noteq> []" "\<forall>p \<in> set ps. \<not> contains ''href='' p" "r = join ''href='' ps"
      by blast
    have "c # cs = join ''href='' ([] # ps)"
      unfolding r ps(3) join_Cons_append[OF ps(1)] by simp
    with ps(2) show ?thesis by (intro exI[of _ "[] # ps"]) simp
  next
    case False
    have "\<exists>parts. parts \<noteq> [] \<and> (\<forall>p \<in> set parts. \<not> contains ''href='' p) \<and> cs = join ''href='' parts"
      by (rule Cons) simp
    then obtain ps where ps: "ps \<noteq> []" "\<forall>p \<in> set ps. \<not> contains ''href='' p" "cs = join ''href='' ps"
      by blast
    then obtain p ps' where p: "ps = p # ps'" by (cases ps) auto
    have eq: "c # cs = join ''href='' ((c # p) # ps')"
      unfolding ps(3) p join_extend_head ..
    have "\<not> startswith (c # p) ''href=''"
    proof
      assume "startswith (c # p) ''href=''"
      then have "startswith ((c # p) @ drop (length (c # p)) (c # cs)) ''href=''"
        by (rule startswith_appendI)
      moreover have "take (length (c # p)) (c # cs) = c # p"
        unfolding eq by (cases ps') simp_all
      then have "(c # p) @ drop (length (c # p)) (c # cs) = c # cs"
        by (metis append_take_drop_id)
      ultimately show False using False by simp
    qed
    with ps(2) p have "\<forall>q \<in> set ((c # p) # ps'). \<not> contains ''href='' q" by simp
    with eq show ?thesis by (intro exI[of _ "(c # p) # ps'"]) simp
  qed
qed

lemma replace_scan_identity: "replace_scan ''href='' ''href='' s = s"
proof (induction s rule: suffix_induct)
  case Nil
  show ?case by simp
next
  case (Cons c cs)
  show ?case
  proof (cases "startswith (c # cs) ''href=''")
    case True
    from startswith_split[OF True] obtain r where r: "c # cs = ''href='' @ r" by blast
    have "replace_scan ''href='' ''href='' r = r" by (rule Cons) (use r in simp)
    then show ?thesis unfolding r by simp
  next
    case False
    have "replace_scan ''href='' ''href='' cs = cs" by (rule Cons) simp
    then show ?thesis unfolding replace_scan_miss[OF False] by simp
  qed
qed

text \<open>Two insertions in a row amount to one insertion of both texts.\<close>

lemma replace_scan_twice:
  assumes "\<not> contains ''href='' A" and "A \<noteq> []" and "hd A \<notin> set ''ref=''"
  shows "replace_scan ''href='' (B @ ''href='') (replace_scan ''href='' (A @ ''href='') s)
         = replace_scan ''href='' (A @ B @ ''href='') s"
proof (induction s rule: suffix_induct)
  case Nil
  show ?case by simp
next
  case (Cons c cs)
  show ?case
  proof (cases "startswith (c # cs) ''href=''")
    case True
    from startswith_split[OF True] obtain r where r: "c # cs = ''href='' @ r" by blast
    have ih: "replace_scan ''href='' (B @ ''href='') (replace_scan ''href='' (A @ ''href='') r)
         = replace_scan ''href='' (A @ B @ ''href='') r" by (rule Cons) (use r in simp)
    have "replace_scan ''href='' (B @ ''href='') (A @ ''href='' @ replace_scan ''href='' (A @ ''href='') r)
        = A @ replace_scan ''href='' (B @ ''href='') (''href='' @ replace_scan ''href='' (A @ ''href='') r)"
      by (rule replace_scan_prefix) (use assms in simp_all)
    with ih show ?thesis unfolding r by simp
  next
    case False
    have ih: "replace_scan ''href='' (B @ ''href='') (replace_scan ''href='' (A @ ''href='') cs)
         = replace_scan ''href='' (A @ B @ ''href='') cs" by (rule Cons) simp
    have "startswith (replace_scan ''href='' (A @ ''href='') cs) ''ref='' \<longleftrightarrow> startswith cs ''ref=''"
      by (rule startswith_replace_scan) (use assms in auto)
    with False have "\<not> startswith (c # replace_scan ''href='' (A @ ''href='') cs) ''href=''"
      by simp
    with ih show ?thesis
      unfolding replace_scan_miss[OF False] by (simp add: replace_scan_miss del: startswith_Cons)
  qed
qed

lemma add_attributes_eq:
  "add_attributes m = str_replace ''href='' (missing_directives m @ ''href='') m"
proof -
  have tw: "replace_scan ''href='' rel_attr (replace_scan ''href='' target_attr m)
      = replace_scan ''href='' (''target=\"_blank\" '' @ ''rel=\"noopener noreferrer\" '' @ ''href='') m"
    using replace_scan_twice[of "''target=\"_blank\" ''" "''rel=\"noopener noreferrer\" ''" m]
    by (simp add: rel_attr_def target_attr_def)
  show ?thesis
    using tw contains_rel_replace_scan[of m]
    by (simp add: add_attributes_def missing_directives_def str_replace_def Let_def
        replace_scan_identity)
      (simp add: rel_attr_def target_attr_def)
qed

section \<open>Facts about the matcher and \<^verbatim>\<open>re.sub\<close>\<close>

lemma re_run_bounds:
  "re_run pat s pos g = Some (e, a, b) \<Longrightarrow> pos \<le> e \<and> e \<le> pos + length s"
proof (induction pat s pos g arbitrary: e a b rule: re_run.induct)
  case (2 l "is" s pos g)
  then show ?case by (fastforce split: if_splits dest: startswith_length)
next
  case (6 P "is" c cs pos g)
  then show ?case by (fastforce split: if_splits option.splits)
qed (fastforce split: if_splits)+

lemma re_match_parts:
  assumes "re_match pat s = Some (m, g, rest)"
  shows "s = m @ rest" and "set g \<subseteq> set s" and "rest = drop (length m) s"
  using assms
  by (auto simp: re_match_def min_def split: option.splits
      dest!: re_run_bounds in_set_takeD in_set_dropD)

lemma link_pattern_match_length:
  assumes "re_match link_pattern s = Some (m, g, rest)"
  shows "m \<noteq> []"
proof -
  from assms obtain e a b where r: "re_run link_pattern s 0 (0, 0) = Some (e, a, b)"
    and m: "m = take e s"
    by (auto simp: re_match_def split: option.splits)
  from r have sw: "startswith s ''<a''"
    and r': "re_run (tl link_pattern) (drop 2 s) 2 (0, 0) = Some (e, a, b)"
    by (auto simp: link_pattern_def numeral_2_eq_2 split: if_splits)
  from re_run_bounds[OF r'] have "2 \<le> e" by simp
  moreover from startswith_length[OF sw] have "2 \<le> length s" by simp
  ultimately show ?thesis using m by auto
qed

lemma re_sub_no_match:
  "re_match pat (c # cs) = None \<Longrightarrow>
   re_sub pat repl (c # cs) = (case re_sub pat repl cs of Inl e \<Rightarrow> Inl e | Inr t \<Rightarrow> Inr (c # t))"
  by simp

lemma re_sub_empty_match:
  "re_match pat (c # cs) = Some ([], g, rest) \<Longrightarrow>
   re_sub pat repl (c # cs) = (case re_sub pat repl cs of Inl e \<Rightarrow> Inl e | Inr t \<Rightarrow> Inr (c # t))"
  by simp

lemma re_sub_match:
  assumes "re_match pat (c # cs) = Some (m, g, rest)" and "m \<noteq> []"
  shows "re_sub pat repl (c # cs) =
    (case repl m g of Inl e \<Rightarrow> Inl e
     | Inr r \<Rightarrow> (case re_sub pat repl rest of Inl e \<Rightarrow> Inl e | Inr t \<Rightarrow> Inr (r @ t)))"
proof -
  have d: "drop (length m) (c # cs) = rest"
    using re_match_parts(3)[OF assms(1)] by simp
  show ?thesis
    by (simp only: re_sub.simps assms option.case prod.case if_False d)
qed

lemma re_match_rest_length:
  assumes "re_match pat (c # cs) = Some (m, g, rest)" and "m \<noteq> []"
  shows "length rest \<le> length cs"
  using re_match_parts(3)[OF assms(1)] assms(2) by (cases m) simp_all

declare re_sub.simps(2) [simp del]

lemma re_finditer_no_match:
  "re_match pat (c # cs) = None \<Longrightarrow> re_finditer pat (c # cs) = re_finditer pat cs"
  by simp

lemma re_finditer_empty_match:
  "re_match pat (c # cs) = Some ([], g, rest) \<Longrightarrow> re_finditer pat (c # cs) = re_finditer pat cs"
  by simp

lemma re_finditer_match:
  assumes "re_match pat (c # cs) = Some (m, g, rest)" and "m \<noteq> []"
  shows "re_finditer pat (c # cs) = (m, g) # re_finditer pat rest"
proof -
  have d: "drop (length m) (c # cs) = rest"
    using re_match_parts(3)[OF assms(1)] by simp
  show ?thesis
    by (simp only: re_finditer.simps assms option.case prod.case if_False d)
qed

declare re_finditer.simps(2) [simp del]

text \<open>\<^verbatim>\<open>re.sub\<close> raises exactly when the replacement function raises on one of the
  matches.\<close>

lemma sum_case_raises:
  "(case x of Inl e \<Rightarrow> Inl e | Inr t \<Rightarrow> Inr (f t)) = (Inl ValueError :: error + 'b) \<longleftrightarrow> x = Inl ValueError"
  by (cases x) (simp_all add: error_is_ValueError)

lemma re_sub_raises_iff:
  "re_sub pat repl s = Inl ValueError
   \<longleftrightarrow> list_ex (\<lambda>(m, g). repl m g = Inl ValueError) (re_finditer pat s)"
proof (induction s rule: suffix_induct)
  case Nil
  show ?case by simp
next
  case (Cons c cs)
  have tl: "re_sub pat repl cs = Inl ValueError
      \<longleftrightarrow> list_ex (\<lambda>(m, g). repl m g = Inl ValueError) (re_finditer pat cs)"
    by (rule Cons) simp
  show ?case
  proof (cases "re_match pat (c # cs)")
    case None
    show ?thesis
      unfolding re_sub_no_match[OF None] re_finditer_no_match[OF None] sum_case_raises by (rule tl)
  next
    case (Some t)
    obtain m g rest where t: "t = (m, g, rest)" by (cases t)
    note Some = Some[unfolded t]
    show ?thesis
    proof (cases "m = []")
      case True
      note E = Some[unfolded True]
      show ?thesis
        unfolding re_sub_empty_match[OF E] re_finditer_empty_match[OF E] sum_case_raises by (rule tl)
    next
      case False
      have rest: "re_sub pat repl rest = Inl ValueError
          \<longleftrightarrow> list_ex (\<lambda>(m, g). repl m g = Inl ValueError) (re_finditer pat rest)"
        by (rule Cons) (rule re_match_rest_length[OF Some False])
      show ?thesis
      proof (cases "repl m g")
        case (Inl e)
        then show ?thesis
          unfolding re_sub_match[OF Some False] re_finditer_match[OF Some False]
          by (simp add: error_is_ValueError)
      next
        case (Inr r)
        then show ?thesis
          unfolding re_sub_match[OF Some False] re_finditer_match[OF Some False]
          using rest by (simp add: sum_case_raises)
      qed
    qed
  qed
qed

lemma sum_returns_iff: "(\<exists>t. x = Inr t) \<longleftrightarrow> x \<noteq> (Inl ValueError :: error + 'b)"
  by (cases x) (simp_all add: error_is_ValueError)

lemma re_sub_returns_iff:
  "(\<exists>t. re_sub pat repl s = Inr t)
   \<longleftrightarrow> list_all (\<lambda>(m, g). \<exists>r. repl m g = Inr r) (re_finditer pat s)"
proof -
  have "(\<exists>t. re_sub pat repl s = Inr t)
      \<longleftrightarrow> \<not> list_ex (\<lambda>(m, g). repl m g = Inl ValueError) (re_finditer pat s)"
    unfolding sum_returns_iff re_sub_raises_iff ..
  also have "\<dots> \<longleftrightarrow> list_all (\<lambda>(m, g). \<exists>r. repl m g = Inr r) (re_finditer pat s)"
    by (auto simp: list_all_iff list_ex_iff sum_returns_iff)
  finally show ?thesis .
qed

text \<open>A replacement function that returns every match as it is leaves the text as it is.\<close>

lemma re_sub_all_unchanged:
  assumes "list_all (\<lambda>(m, g). repl m g = Inr m) (re_finditer pat s)"
  shows "re_sub pat repl s = Inr s"
  using assms
proof (induction s rule: suffix_induct)
  case Nil
  show ?case by simp
next
  case (Cons c cs)
  show ?case
  proof (cases "re_match pat (c # cs)")
    case None
    have "re_sub pat repl cs = Inr cs"
      by (rule Cons(1)) (use Cons(2) in \<open>simp_all add: re_finditer_no_match[OF None]\<close>)
    then show ?thesis unfolding re_sub_no_match[OF None] by simp
  next
    case (Some t)
    obtain m g rest where t: "t = (m, g, rest)" by (cases t)
    note Some = Some[unfolded t]
    show ?thesis
    proof (cases "m = []")
      case True
      note E = Some[unfolded True]
      have "re_sub pat repl cs = Inr cs"
        by (rule Cons(1)) (use Cons(2) in \<open>simp_all add: re_finditer_empty_match[OF E]\<close>)
      then show ?thesis unfolding re_sub_empty_match[OF E] by simp
    next
      case False
      from Cons(2) have m: "repl m g = Inr m"
        and all: "list_all (\<lambda>(m, g). repl m g = Inr m) (re_finditer pat rest)"
        by (simp_all add: re_finditer_match[OF Some False])
      have "re_sub pat repl rest = Inr rest"
        by (rule Cons(1)) (rule re_match_rest_length[OF Some False], rule all)
      moreover have "m @ rest = c # cs" using re_match_parts(1)[OF Some] by simp
      ultimately show ?thesis unfolding re_sub_match[OF Some False] using m by simp
    qed
  qed
qed

section \<open>Facts about \<^verbatim>\<open>urlparse\<close> and \<^verbatim>\<open>replace_external_link\<close>\<close>

lemma strip_scheme_subset: "set (strip_scheme url) \<subseteq> set url"
  by (auto simp: strip_scheme_def Let_def dest: in_set_dropD)

lemma splitnetloc_subset: "set (splitnetloc url) \<subseteq> set url"
  by (auto simp: splitnetloc_def dest: set_takeWhileD in_set_dropD)

text \<open>Without a square bracket in the URL, \<^verbatim>\<open>urlparse\<close> raises nothing.\<close>

lemma urlparse_netloc_no_bracket:
  assumes "CHR ''['' \<notin> set url" and "CHR '']'' \<notin> set url"
  shows "\<exists>n. urlparse_netloc ipv6_ok url = Inr n"
proof -
  define url2 where "url2 = filter (\<lambda>c. \<not> unsafe_url_byte c) (dropWhile c0_control_or_space url)"
  define netloc where "netloc = splitnetloc (strip_scheme url2)"
  have "set url2 \<subseteq> set url" unfolding url2_def by (auto dest: set_dropWhileD)
  with splitnetloc_subset[of "strip_scheme url2"] strip_scheme_subset[of url2]
  have "set netloc \<subseteq> set url" unfolding netloc_def by blast
  with assms have "CHR ''['' \<notin> set netloc" "CHR '']'' \<notin> set netloc" by auto
  then show ?thesis
    by (simp add: urlparse_netloc_def Let_def url2_def netloc_def)
qed

text \<open>With a false \<^verbatim>\<open>site_url\<close> only the first call of \<^verbatim>\<open>urlparse\<close> is made.\<close>

lemma replace_external_link_site_false:
  assumes "\<not> truthy (config_get config ''site_url'' (PyStr []))"
  shows "replace_external_link ipv6_ok config m g
         = (case urlparse_netloc ipv6_ok g of Inl e \<Rightarrow> Inl e | Inr n \<Rightarrow> Inr m)"
  using assms by (simp add: replace_external_link_def Let_def split: sum.splits)

lemma replace_external_link_site_false_raises:
  assumes "\<not> truthy (config_get config ''site_url'' (PyStr []))"
  shows "replace_external_link ipv6_ok config m g = Inl ValueError
         \<longleftrightarrow> urlparse_netloc ipv6_ok g = Inl ValueError"
  unfolding replace_external_link_site_false[OF assms]
  by (cases "urlparse_netloc ipv6_ok g") (simp_all add: error_is_ValueError)

lemma replace_external_link_site_false_returns:
  assumes "\<not> truthy (config_get config ''site_url'' (PyStr []))"
    and "urlparse_netloc ipv6_ok g \<noteq> Inl ValueError"
  shows "replace_external_link ipv6_ok config m g = Inr m"
  unfolding replace_external_link_site_false[OF assms(1)] using assms(2)
  by (cases "urlparse_netloc ipv6_ok g") (simp_all add: error_is_ValueError)

lemma on_page_content_site_false:
  assumes "\<not> truthy (config_get config ''site_url'' (PyStr []))"
  shows "on_page_content ipv6_ok html page config files
         = (if list_ex (\<lambda>(m, g). urlparse_netloc ipv6_ok g = Inl ValueError)
                 (re_finditer link_pattern html)
            then Inl ValueError else Inr html)"
proof (cases "list_ex (\<lambda>(m, g). urlparse_netloc ipv6_ok g = Inl ValueError)
                 (re_finditer link_pattern html)")
  case True
  then show ?thesis
    by (simp add: on_page_content_def re_sub_raises_iff
        replace_external_link_site_false_raises[OF assms])
next
  case False
  then have "list_all (\<lambda>(m, g). replace_external_link ipv6_ok config m g = Inr m)
                 (re_finditer link_pattern html)"
    by (auto simp: list_ex_iff list_all_iff
        intro!: replace_external_link_site_false_returns[OF assms])
  then show ?thesis using False
    by (simp add: on_page_content_def re_sub_all_unchanged)
qed

text \<open>When \<^verbatim>\<open>replace_external_link\<close> raises: one of its two calls of \<^verbatim>\<open>urlparse\<close> does.\<close>

lemma replace_external_link_raises_iff:
  "replace_external_link ipv6_ok config m g = Inl ValueError
   \<longleftrightarrow> urlparse_netloc ipv6_ok g = Inl ValueError
     \<or> (\<exists>netloc. urlparse_netloc ipv6_ok g = Inr netloc \<and> netloc \<noteq> []
           \<and> netloc \<noteq> ''localhost'' \<and> netloc \<noteq> ''127.0.0.1''
           \<and> truthy (config_get config ''site_url'' (PyStr []))
           \<and> urlparse_netloc ipv6_ok (str_of (config_get config ''site_url'' (PyStr [])))
               = Inl ValueError)"
  by (auto simp: replace_external_link_def Let_def error_is_ValueError split: sum.splits)

text \<open>The branch of \<^verbatim>\<open>replace_external_link\<close> that adds the attributes.\<close>

lemma replace_external_link_external:
  assumes "urlparse_netloc ipv6_ok href = Inr netloc" and "netloc \<noteq> []"
    and "netloc \<noteq> ''localhost''" and "netloc \<noteq> ''127.0.0.1''"
    and "config ''site_url'' = Some (PyStr siteURL)" and "siteURL \<noteq> []"
    and "urlparse_netloc ipv6_ok siteURL = Inr site_domain" and "netloc \<noteq> site_domain"
  shows "replace_external_link ipv6_ok config m href = Inr (add_attributes m)"
  using assms by (simp add: replace_external_link_def config_get_def)

text \<open>With one occurrence of \<^verbatim>\<open>href=\<close> and no directive present, both directives are put
  before it, the new-context directive first.\<close>

lemma single_href_annotation_order:
  assumes "urlparse_netloc ipv6_ok href = Inr netloc" and "netloc \<noteq> []"
    and "netloc \<noteq> ''localhost''" and "netloc \<noteq> ''127.0.0.1''"
    and "config ''site_url'' = Some (PyStr siteURL)" and "siteURL \<noteq> []"
    and "urlparse_netloc ipv6_ok siteURL = Inr site_domain" and "netloc \<noteq> site_domain"
    and "\<not> contains ''href='' pre" and "\<not> contains ''href='' post"
    and "\<not> contains ''target='' (pre @ ''href='' @ post)"
    and "\<not> contains ''rel='' (pre @ ''href='' @ post)"
  shows "replace_external_link ipv6_ok config (pre @ ''href='' @ post) href
         = Inr (pre @ ''target=\"_blank\" rel=\"noopener noreferrer\" href='' @ post)"
proof -
  let ?m = "pre @ ''href='' @ post"
  have ext: "replace_external_link ipv6_ok config ?m href = Inr (add_attributes ?m)"
    using assms(1-8) by (rule replace_external_link_external)
  have m: "?m = join ''href='' [pre, post]" by simp
  from assms(11,12)
  have d: "missing_directives ?m = ''target=\"_blank\" rel=\"noopener noreferrer\" ''"
    by (simp add: missing_directives_def)
  have "add_attributes ?m = replace_scan ''href='' (missing_directives ?m @ ''href='') ?m"
    by (simp add: add_attributes_eq str_replace_def)
  also have "\<dots> = join (missing_directives ?m @ ''href='') [pre, post]"
    unfolding m by (rule replace_scan_join) (use assms(9,10) in simp_all)
  finally show ?thesis using ext d by simp
qed

text \<open>The equations that evaluate the hook on a given page.\<close>

lemmas eval_defs = annotate_def on_page_content_def link_pattern_def re_match_def startswith_def
  re_space_def not_gt_def is_quote_def not_quote_def replace_external_link_def urlparse_netloc_def
  c0_control_or_space_def unsafe_url_byte_def strip_scheme_def ascii_letters_def scheme_chars_def
  splitnetloc_def config_get_def add_attributes_def str_replace_def target_attr_def rel_attr_def
  missing_directives_def re_sub.simps re_finditer.simps replace_scan.simps

section \<open>The claims\<close>

text \<open>
  C1 (as amended). When \<^verbatim>\<open>site_url\<close> is the empty string, unset or \<^verbatim>\<open>None\<close>, no anchor
  is annotated: the test \<^verbatim>\<open>if site_url:\<close> fails and every matched tag is returned as it
  is. \<^verbatim>\<open>on_page_content\<close> returns \<^verbatim>\<open>html\<close> unchanged if \<^verbatim>\<open>urlparse\<close> returns on the
  \<^verbatim>\<open>href\<close> of every matched anchor, and raises \<^verbatim>\<open>ValueError\<close> otherwise; so does
  \<^verbatim>\<open>annotate\<close> with an empty \<^verbatim>\<open>siteURL\<close>.
\<close>

theorem site_url_empty_unannotated:
  "(config ''site_url'' = None \<or> config ''site_url'' = Some PyNone
      \<or> config ''site_url'' = Some (PyStr [])
    \<longrightarrow> on_page_content ipv6_ok html page config files
        = (if list_ex (\<lambda>(m, g). urlparse_netloc ipv6_ok g = Inl ValueError)
                (re_finditer link_pattern html)
           then Inl ValueError else Inr html))
   \<and> annotate ipv6_ok html []
        = (if list_ex (\<lambda>(m, g). urlparse_netloc ipv6_ok g = Inl ValueError)
                (re_finditer link_pattern html)
           then Inl ValueError else Inr html)"
proof (intro conjI impI)
  assume "config ''site_url'' = None \<or> config ''site_url'' = Some PyNone
      \<or> config ''site_url'' = Some (PyStr [])"
  then have "\<not> truthy (config_get config ''site_url'' (PyStr []))"
    by (auto simp: config_get_def)
  then show "on_page_content ipv6_ok html page config files
        = (if list_ex (\<lambda>(m, g). urlparse_netloc ipv6_ok g = Inl ValueError)
                (re_finditer link_pattern html)
           then Inl ValueError else Inr html)"
    by (rule on_page_content_site_false)
next
  show "annotate ipv6_ok html []
        = (if list_ex (\<lambda>(m, g). urlparse_netloc ipv6_ok g = Inl ValueError)
                (re_finditer link_pattern html)
           then Inl ValueError else Inr html)"
    unfolding annotate_def by (rule on_page_content_site_false) (simp add: config_get_def)
qed

theorem site_url_empty_unannotated_witness:
  "\<forall>ipv6_ok.
     on_page_content ipv6_ok ''<a href=\"https://other.org/x\">x</a>'' ''index.md''
         [''site_name'' \<mapsto> PyStr ''Docs''] ''files''
       = Inr ''<a href=\"https://other.org/x\">x</a>''
     \<and> on_page_content ipv6_ok ''<a href=\"https://other.org/x\">x</a>'' ''index.md''
         [''site_url'' \<mapsto> PyNone] ''files''
       = Inr ''<a href=\"https://other.org/x\">x</a>''
     \<and> annotate ipv6_ok ''<a href=\"https://other.org/x\">x</a> <a href=\"//[\">y</a>'' []
       = Inl ValueError"
proof (intro allI conjI)
  fix ipv6_ok :: "string \<Rightarrow> bool"
  have f: "re_finditer link_pattern ''<a href=\"https://other.org/x\">x</a>''
      = [(''<a href=\"https://other.org/x\">'', ''https://other.org/x'')]"
    by (simp add: eval_defs)
  have f2: "re_finditer link_pattern ''<a href=\"https://other.org/x\">x</a> <a href=\"//[\">y</a>''
      = [(''<a href=\"https://other.org/x\">'', ''https://other.org/x''), (''<a href=\"//[\">'', ''//['')]"
    by (simp add: eval_defs)
  have n: "urlparse_netloc ipv6_ok ''https://other.org/x'' = Inr ''other.org''"
    and e: "urlparse_netloc ipv6_ok ''//['' = Inl ValueError"
    by (simp_all add: eval_defs)
  from site_url_empty_unannotated
    [where ipv6_ok = ipv6_ok and config = "[''site_name'' \<mapsto> PyStr ''Docs'']"
      and html = "''<a href=\"https://other.org/x\">x</a>''" and page = "''index.md''"
      and files = "''files''"] f n
  show "on_page_content ipv6_ok ''<a href=\"https://other.org/x\">x</a>'' ''index.md''
         [''site_name'' \<mapsto> PyStr ''Docs''] ''files''
       = Inr ''<a href=\"https://other.org/x\">x</a>''"
    by simp
  from site_url_empty_unannotated
    [where ipv6_ok = ipv6_ok and config = "[''site_url'' \<mapsto> PyNone]"
      and html = "''<a href=\"https://other.org/x\">x</a>''" and page = "''index.md''"
      and files = "''files''"] f n
  show "on_page_content ipv6_ok ''<a href=\"https://other.org/x\">x</a>'' ''index.md''
         [''site_url'' \<mapsto> PyNone] ''files''
       = Inr ''<a href=\"https://other.org/x\">x</a>''"
    by simp
  from site_url_empty_unannotated
    [where ipv6_ok = ipv6_ok
      and html = "''<a href=\"https://other.org/x\">x</a> <a href=\"//[\">y</a>''",
      THEN conjunct2] f2 n e
  show "annotate ipv6_ok ''<a href=\"https://other.org/x\">x</a> <a href=\"//[\">y</a>'' []
       = Inl ValueError"
    by simp
qed

text \<open>
  C1 as stated fails: with an empty \<^verbatim>\<open>siteURL\<close> the anchor to \<^verbatim>\<open>other.org\<close>, whose
  authority is not empty and not a loopback alias, is left without the two
  attributes.
\<close>

theorem site_url_empty_external_counterexample:
  "\<forall>ipv6_ok. urlparse_netloc ipv6_ok ''https://other.org/x'' = Inr ''other.org''
     \<and> annotate ipv6_ok ''<a href=\"https://other.org/x\">x</a>'' []
         = Inr ''<a href=\"https://other.org/x\">x</a>''"
  by (simp add: eval_defs)

text \<open>
  C2 (as amended). \<^verbatim>\<open>annotate\<close> is a total function (its recursion terminates on every
  input). It raises \<^verbatim>\<open>ValueError\<close> exactly when, for some matched anchor, \<^verbatim>\<open>urlparse\<close>
  raises on the \<^verbatim>\<open>href\<close>, or the \<^verbatim>\<open>href\<close> has an authority that is not empty and not a
  loopback alias, \<^verbatim>\<open>siteURL\<close> is not empty and \<^verbatim>\<open>urlparse\<close> raises on \<^verbatim>\<open>siteURL\<close>: the
  error of \<^verbatim>\<open>urlparse\<close> is not caught. In particular \<^verbatim>\<open>annotate\<close> returns a string
  when \<^verbatim>\<open>urlparse\<close> returns on the \<^verbatim>\<open>href\<close> of every matched anchor and on \<^verbatim>\<open>siteURL\<close>.
\<close>

theorem annotate_raises_iff_urlparse_raises:
  "(annotate ipv6_ok html siteURL = Inl ValueError
     \<longleftrightarrow> list_ex (\<lambda>(m, g). urlparse_netloc ipv6_ok g = Inl ValueError
            \<or> (\<exists>netloc. urlparse_netloc ipv6_ok g = Inr netloc \<and> netloc \<noteq> []
                  \<and> netloc \<noteq> ''localhost'' \<and> netloc \<noteq> ''127.0.0.1''
                  \<and> siteURL \<noteq> [] \<and> urlparse_netloc ipv6_ok siteURL = Inl ValueError))
          (re_finditer link_pattern html))
   \<and> (list_all (\<lambda>(m, g). \<exists>netloc. urlparse_netloc ipv6_ok g = Inr netloc)
          (re_finditer link_pattern html)
        \<and> (\<exists>site_domain. urlparse_netloc ipv6_ok siteURL = Inr site_domain)
      \<longrightarrow> (\<exists>out. annotate ipv6_ok html siteURL = Inr out))"
proof (intro conjI impI)
  let ?config = "[''site_url'' \<mapsto> PyStr siteURL]"
  have c: "config_get ?config ''site_url'' (PyStr []) = PyStr siteURL"
    by (simp add: config_get_def)
  show raises: "annotate ipv6_ok html siteURL = Inl ValueError
     \<longleftrightarrow> list_ex (\<lambda>(m, g). urlparse_netloc ipv6_ok g = Inl ValueError
            \<or> (\<exists>netloc. urlparse_netloc ipv6_ok g = Inr netloc \<and> netloc \<noteq> []
                  \<and> netloc \<noteq> ''localhost'' \<and> netloc \<noteq> ''127.0.0.1''
                  \<and> siteURL \<noteq> [] \<and> urlparse_netloc ipv6_ok siteURL = Inl ValueError))
          (re_finditer link_pattern html)"
    unfolding annotate_def on_page_content_def re_sub_raises_iff
      replace_external_link_raises_iff c
    by simp
  assume a: "list_all (\<lambda>(m, g). \<exists>netloc. urlparse_netloc ipv6_ok g = Inr netloc)
          (re_finditer link_pattern html)
        \<and> (\<exists>site_domain. urlparse_netloc ipv6_ok siteURL = Inr site_domain)"
  have "annotate ipv6_ok html siteURL \<noteq> Inl ValueError"
    unfolding raises using a by (auto simp: list_all_iff list_ex_iff)
  then show "\<exists>out. annotate ipv6_ok html siteURL = Inr out"
    by (simp add: sum_returns_iff)
qed

theorem annotate_raises_iff_urlparse_raises_witness:
  "\<forall>ipv6_ok.
     (\<exists>out. annotate ipv6_ok ''see a[0] <a href=\"https://other.org/x\">x</a>''
         ''https://docs.example.com'' = Inr out)
     \<and> annotate ipv6_ok ''<a href=\"https://other.org/x\">x</a>'' ''https://['' = Inl ValueError"
proof (intro allI conjI)
  fix ipv6_ok :: "string \<Rightarrow> bool"
  have f: "re_finditer link_pattern ''see a[0] <a href=\"https://other.org/x\">x</a>''
      = [(''<a href=\"https://other.org/x\">'', ''https://other.org/x'')]"
    by (simp add: eval_defs)
  have f2: "re_finditer link_pattern ''<a href=\"https://other.org/x\">x</a>''
      = [(''<a href=\"https://other.org/x\">'', ''https://other.org/x'')]"
    by (simp add: eval_defs)
  have n: "urlparse_netloc ipv6_ok ''https://other.org/x'' = Inr ''other.org''"
    and d: "urlparse_netloc ipv6_ok ''https://docs.example.com'' = Inr ''docs.example.com''"
    and e: "urlparse_netloc ipv6_ok ''https://['' = Inl ValueError"
    by (simp_all add: eval_defs)
  from annotate_raises_iff_urlparse_raises
    [where ipv6_ok = ipv6_ok and html = "''see a[0] <a href=\"https://other.org/x\">x</a>''"
      and siteURL = "''https://docs.example.com''"] f n d
  show "\<exists>out. annotate ipv6_ok ''see a[0] <a href=\"https://other.org/x\">x</a>''
         ''https://docs.example.com'' = Inr out"
    by simp
  from annotate_raises_iff_urlparse_raises
    [where ipv6_ok = ipv6_ok and html = "''<a href=\"https://other.org/x\">x</a>''"
      and siteURL = "''https://[''"] f2 n e
  show "annotate ipv6_ok ''<a href=\"https://other.org/x\">x</a>'' ''https://['' = Inl ValueError"
    by simp
qed

text \<open>
  C2 as stated fails: the \<^verbatim>\<open>href\<close> \<^verbatim>\<open>//[\<close> has an authority with an unmatched square
  bracket, \<^verbatim>\<open>urlparse\<close> raises \<^verbatim>\<open>ValueError\<close>, and the call ends with it.
\<close>

theorem annotate_propagates_ValueError:
  "\<forall>ipv6_ok. annotate ipv6_ok ''<a href=\"//[\">x</a>'' ''https://docs.example.com''
     = Inl ValueError"
  by (simp add: eval_defs)

text \<open>
  C3 does not hold of the code. On the page below the first pass inserts the
  \<^verbatim>\<open>target\<close> attribute before both occurrences of \<^verbatim>\<open>href=\<close>, one of them inside the
  quoted URL. In the result the inserted quote ends the \<^verbatim>\<open>href\<close> value early, the
  second pass matches a shorter tag, which has no \<^verbatim>\<open>rel=\<close>, and inserts the
  \<^verbatim>\<open>rel\<close> attribute: the second pass changes the output of the first.
\<close>

theorem annotate_not_idempotent:
  "\<forall>ipv6_ok.
     annotate ipv6_ok ''<a href=\"https://other.org/r?href=a>b\" rel=\"nofollow\">x</a>''
         ''https://docs.example.com''
       = Inr ''<a target=\"_blank\" href=\"https://other.org/r?target=\"_blank\" href=a>b\" rel=\"nofollow\">x</a>''
     \<and> annotate ipv6_ok
         ''<a target=\"_blank\" href=\"https://other.org/r?target=\"_blank\" href=a>b\" rel=\"nofollow\">x</a>''
         ''https://docs.example.com''
       = Inr ''<a target=\"_blank\" rel=\"noopener noreferrer\" href=\"https://other.org/r?target=\"_blank\" rel=\"noopener noreferrer\" href=a>b\" rel=\"nofollow\">x</a>''"
  by (simp add: eval_defs)

text \<open>
  C4 (as amended). A link whose authority is exactly \<^verbatim>\<open>localhost\<close> or \<^verbatim>\<open>127.0.0.1\<close> is
  never annotated, whatever the configuration: the matched tag is returned as it
  is. In particular \<^verbatim>\<open><a href="http://localhost/x">l</a>\<close> is unchanged for every
  \<^verbatim>\<open>siteURL\<close>.
\<close>

theorem loopback_alias_unannotated:
  "(urlparse_netloc ipv6_ok href = Inr netloc \<and> netloc \<in> {''localhost'', ''127.0.0.1''}
      \<longrightarrow> replace_external_link ipv6_ok config full_match href = Inr full_match)
   \<and> annotate ipv6_ok ''<a href=\"http://localhost/x\">l</a>'' siteURL
       = Inr ''<a href=\"http://localhost/x\">l</a>''"
proof
  show "urlparse_netloc ipv6_ok href = Inr netloc \<and> netloc \<in> {''localhost'', ''127.0.0.1''}
      \<longrightarrow> replace_external_link ipv6_ok config full_match href = Inr full_match"
    by (auto simp: replace_external_link_def)
  show "annotate ipv6_ok ''<a href=\"http://localhost/x\">l</a>'' siteURL
       = Inr ''<a href=\"http://localhost/x\">l</a>''"
    by (simp add: eval_defs)
qed

theorem loopback_alias_unannotated_witness:
  "\<forall>ipv6_ok siteURL.
     urlparse_netloc ipv6_ok ''http://127.0.0.1/x'' = Inr ''127.0.0.1''
     \<and> replace_external_link ipv6_ok [''site_url'' \<mapsto> PyStr ''https://docs.example.com'']
         ''<a href=\"http://127.0.0.1/x\">'' ''http://127.0.0.1/x''
         = Inr ''<a href=\"http://127.0.0.1/x\">''
     \<and> annotate ipv6_ok ''<a href=\"http://localhost/x\">l</a>'' siteURL
         = Inr ''<a href=\"http://localhost/x\">l</a>''"
proof (intro allI)
  fix ipv6_ok :: "string \<Rightarrow> bool" and siteURL :: string
  have n: "urlparse_netloc ipv6_ok ''http://127.0.0.1/x'' = Inr ''127.0.0.1''"
    by (simp add: eval_defs)
  from loopback_alias_unannotated
    [where ipv6_ok = ipv6_ok and href = "''http://127.0.0.1/x''" and netloc = "''127.0.0.1''"
      and config = "[''site_url'' \<mapsto> PyStr ''https://docs.example.com'']"
      and full_match = "''<a href=\"http://127.0.0.1/x\">''" and siteURL = siteURL] n
  show "urlparse_netloc ipv6_ok ''http://127.0.0.1/x'' = Inr ''127.0.0.1''
     \<and> replace_external_link ipv6_ok [''site_url'' \<mapsto> PyStr ''https://docs.example.com'']
         ''<a href=\"http://127.0.0.1/x\">'' ''http://127.0.0.1/x''
         = Inr ''<a href=\"http://127.0.0.1/x\">''
     \<and> annotate ipv6_ok ''<a href=\"http://localhost/x\">l</a>'' siteURL
         = Inr ''<a href=\"http://localhost/x\">l</a>''"
    by simp
qed

text \<open>
  C4 as stated fails: the authority of \<^verbatim>\<open>http://localhost:8000/x\<close> is
  \<^verbatim>\<open>localhost:8000\<close>, which is not in the list of aliases, and the anchor is annotated.
\<close>

theorem loopback_with_port_annotated:
  "\<forall>ipv6_ok. urlparse_netloc ipv6_ok ''http://localhost:8000/x'' = Inr ''localhost:8000''
     \<and> annotate ipv6_ok ''<a href=\"http://localhost:8000/x\">l</a>'' ''https://docs.example.com''
         = Inr ''<a target=\"_blank\" rel=\"noopener noreferrer\" href=\"http://localhost:8000/x\">l</a>''"
  by (simp add: eval_defs)

text \<open>
  C5 does not hold of the code. The page of the example becomes what the claim
  says, but the order "new-context directive, safety directive, \<^verbatim>\<open>href\<close>, rest of the
  tag" fails for a tag in which \<^verbatim>\<open>href=\<close> occurs a second time: in the second page
  below both directives are also inserted into the name of the \<^verbatim>\<open>data-href\<close>
  attribute, which breaks that attribute and gives the tag each directive twice.
  (With one occurrence of \<^verbatim>\<open>href=\<close> the order is as claimed: lemma
  \<open>single_href_annotation_order\<close>.)
\<close>

theorem annotation_order_broken_by_second_href:
  "\<forall>ipv6_ok.
     annotate ipv6_ok ''<a href=\"https://other.org/x\">x</a>'' ''https://docs.example.com''
       = Inr ''<a target=\"_blank\" rel=\"noopener noreferrer\" href=\"https://other.org/x\">x</a>''
     \<and> annotate ipv6_ok ''<a data-href=\"x\" href=\"https://other.org/x\">x</a>''
         ''https://docs.example.com''
       = Inr ''<a data-target=\"_blank\" rel=\"noopener noreferrer\" href=\"x\" target=\"_blank\" rel=\"noopener noreferrer\" href=\"https://other.org/x\">x</a>''"
  by (simp add: eval_defs)

text \<open>
  C6. For every external tag the new-context directive is inserted exactly when
  \<^verbatim>\<open>target=\<close> does not occur in the tag and the safety directive exactly when \<^verbatim>\<open>rel=\<close>
  does not occur in it (\<open>missing_directives\<close>); in particular, with
  \<^verbatim>\<open>siteURL = "https://docs.example.com"\<close>, the anchor with \<^verbatim>\<open>rel="nofollow"\<close> gains
  the new-context directive only.
\<close>

theorem existing_attributes_respected:
  "(urlparse_netloc ipv6_ok href = Inr netloc \<and> netloc \<noteq> []
        \<and> netloc \<noteq> ''localhost'' \<and> netloc \<noteq> ''127.0.0.1''
        \<and> config ''site_url'' = Some (PyStr siteURL) \<and> siteURL \<noteq> []
        \<and> urlparse_netloc ipv6_ok siteURL = Inr site_domain \<and> netloc \<noteq> site_domain
      \<longrightarrow> replace_external_link ipv6_ok config full_match href
            = Inr (str_replace ''href='' (missing_directives full_match @ ''href='') full_match))
   \<and> annotate ipv6_ok ''<a href=\"https://other.org/x\" rel=\"nofollow\">x</a>''
         ''https://docs.example.com''
       = Inr ''<a target=\"_blank\" href=\"https://other.org/x\" rel=\"nofollow\">x</a>''"
proof (intro conjI impI)
  assume a: "urlparse_netloc ipv6_ok href = Inr netloc \<and> netloc \<noteq> []
        \<and> netloc \<noteq> ''localhost'' \<and> netloc \<noteq> ''127.0.0.1''
        \<and> config ''site_url'' = Some (PyStr siteURL) \<and> siteURL \<noteq> []
        \<and> urlparse_netloc ipv6_ok siteURL = Inr site_domain \<and> netloc \<noteq> site_domain"
  then have "replace_external_link ipv6_ok config full_match href = Inr (add_attributes full_match)"
    by (intro replace_external_link_external[where netloc = netloc and siteURL = siteURL
          and site_domain = site_domain]) simp_all
  then show "replace_external_link ipv6_ok config full_match href
            = Inr (str_replace ''href='' (missing_directives full_match @ ''href='') full_match)"
    by (simp only: add_attributes_eq)
next
  show "annotate ipv6_ok ''<a href=\"https://other.org/x\" rel=\"nofollow\">x</a>''
         ''https://docs.example.com''
       = Inr ''<a target=\"_blank\" href=\"https://other.org/x\" rel=\"nofollow\">x</a>''"
    by (simp add: eval_defs)
qed

theorem existing_attributes_respected_witness:
  "\<forall>ipv6_ok.
     replace_external_link ipv6_ok [''site_url'' \<mapsto> PyStr ''https://docs.example.com'']
         ''<a target=\"_top\" href=\"https://other.org/x\">'' ''https://other.org/x''
       = Inr ''<a target=\"_top\" rel=\"noopener noreferrer\" href=\"https://other.org/x\">''"
proof
  fix ipv6_ok :: "string \<Rightarrow> bool"
  have n: "urlparse_netloc ipv6_ok ''https://other.org/x'' = Inr ''other.org''"
    and d: "urlparse_netloc ipv6_ok ''https://docs.example.com'' = Inr ''docs.example.com''"
    by (simp_all add: eval_defs)
  have r: "str_replace ''href=''
        (missing_directives ''<a target=\"_top\" href=\"https://other.org/x\">'' @ ''href='')
        ''<a target=\"_top\" href=\"https://other.org/x\">''
      = ''<a target=\"_top\" rel=\"noopener noreferrer\" href=\"https://other.org/x\">''"
    by (simp add: eval_defs)
  from existing_attributes_respected
    [where ipv6_ok = ipv6_ok and href = "''https://other.org/x''" and netloc = "''other.org''"
      and config = "[''site_url'' \<mapsto> PyStr ''https://docs.example.com'']"
      and siteURL = "''https://docs.example.com''" and site_domain = "''docs.example.com''"
      and full_match = "''<a target=\"_top\" href=\"https://other.org/x\">''"]
    n d r
  show "replace_external_link ipv6_ok [''site_url'' \<mapsto> PyStr ''https://docs.example.com'']
         ''<a target=\"_top\" href=\"https://other.org/x\">'' ''https://other.org/x''
       = Inr ''<a target=\"_top\" rel=\"noopener noreferrer\" href=\"https://other.org/x\">''"
    by simp
qed

text \<open>
  C7. When \<^verbatim>\<open>siteURL\<close> is not empty and the authority of the target equals the
  authority parsed from \<^verbatim>\<open>siteURL\<close>, the matched tag is returned as it is; in
  particular, with \<^verbatim>\<open>siteURL = "https://docs.example.com"\<close>, the page
  \<^verbatim>\<open><a href="https://docs.example.com/page">p</a>\<close> is unchanged.
\<close>

theorem self_link_unannotated:
  "(siteURL \<noteq> [] \<and> config ''site_url'' = Some (PyStr siteURL)
      \<and> urlparse_netloc ipv6_ok href = Inr netloc
      \<and> urlparse_netloc ipv6_ok siteURL = Inr netloc
      \<longrightarrow> replace_external_link ipv6_ok config full_match href = Inr full_match)
   \<and> annotate ipv6_ok ''<a href=\"https://docs.example.com/page\">p</a>''
         ''https://docs.example.com''
       = Inr ''<a href=\"https://docs.example.com/page\">p</a>''"
proof (intro conjI impI)
  assume "siteURL \<noteq> [] \<and> config ''site_url'' = Some (PyStr siteURL)
      \<and> urlparse_netloc ipv6_ok href = Inr netloc
      \<and> urlparse_netloc ipv6_ok siteURL = Inr netloc"
  then show "replace_external_link ipv6_ok config full_match href = Inr full_match"
    by (simp add: replace_external_link_def config_get_def)
next
  show "annotate ipv6_ok ''<a href=\"https://docs.example.com/page\">p</a>''
         ''https://docs.example.com''
       = Inr ''<a href=\"https://docs.example.com/page\">p</a>''"
    by (simp add: eval_defs)
qed

theorem self_link_unannotated_witness:
  "\<forall>ipv6_ok.
     replace_external_link ipv6_ok [''site_url'' \<mapsto> PyStr ''https://docs.example.com:8443/base/'']
         ''<a href=\"http://docs.example.com:8443/page\">'' ''http://docs.example.com:8443/page''
       = Inr ''<a href=\"http://docs.example.com:8443/page\">''"
proof
  fix ipv6_ok :: "string \<Rightarrow> bool"
  have n: "urlparse_netloc ipv6_ok ''http://docs.example.com:8443/page'' = Inr ''docs.example.com:8443''"
    and d: "urlparse_netloc ipv6_ok ''https://docs.example.com:8443/base/'' = Inr ''docs.example.com:8443''"
    by (simp_all add: eval_defs)
  from self_link_unannotated
    [where ipv6_ok = ipv6_ok and href = "''http://docs.example.com:8443/page''"
      and netloc = "''docs.example.com:8443''"
      and config = "[''site_url'' \<mapsto> PyStr ''https://docs.example.com:8443/base/'']"
      and siteURL = "''https://docs.example.com:8443/base/''"
      and full_match = "''<a href=\"http://docs.example.com:8443/page\">''"]
    n d
  show "replace_external_link ipv6_ok [''site_url'' \<mapsto> PyStr ''https://docs.example.com:8443/base/'']
         ''<a href=\"http://docs.example.com:8443/page\">'' ''http://docs.example.com:8443/page''
       = Inr ''<a href=\"http://docs.example.com:8443/page\">''"
    by simp
qed

text \<open>
  C8. For every configuration, an anchor whose \<^verbatim>\<open>href\<close> has an empty authority is not
  annotated: its matched tag is returned as it is; and the page
  \<^verbatim>\<open><a href="../page/">p</a>\<close> is unchanged for every \<^verbatim>\<open>siteURL\<close>.
\<close>

theorem empty_authority_unannotated:
  "(urlparse_netloc ipv6_ok href = Inr []
      \<longrightarrow> replace_external_link ipv6_ok config full_match href = Inr full_match)
   \<and> annotate ipv6_ok ''<a href=\"../page/\">p</a>'' siteURL = Inr ''<a href=\"../page/\">p</a>''"
proof (intro conjI impI)
  assume "urlparse_netloc ipv6_ok href = Inr []"
  then show "replace_external_link ipv6_ok config full_match href = Inr full_match"
    by (simp add: replace_external_link_def)
next
  show "annotate ipv6_ok ''<a href=\"../page/\">p</a>'' siteURL = Inr ''<a href=\"../page/\">p</a>''"
    by (simp add: eval_defs)
qed

theorem empty_authority_unannotated_witness:
  "\<forall>ipv6_ok siteURL.
     urlparse_netloc ipv6_ok ''mailto:docs@example.com'' = Inr []
     \<and> urlparse_netloc ipv6_ok ''#install'' = Inr []
     \<and> replace_external_link ipv6_ok [''site_url'' \<mapsto> PyStr ''https://docs.example.com'']
         ''<a href=\"mailto:docs@example.com\">'' ''mailto:docs@example.com''
       = Inr ''<a href=\"mailto:docs@example.com\">''
     \<and> annotate ipv6_ok ''<a href=\"../page/\">p</a>'' siteURL = Inr ''<a href=\"../page/\">p</a>''"
proof (intro allI)
  fix ipv6_ok :: "string \<Rightarrow> bool" and siteURL :: string
  have n: "urlparse_netloc ipv6_ok ''mailto:docs@example.com'' = Inr []"
    and f: "urlparse_netloc ipv6_ok ''#install'' = Inr []"
    by (simp_all add: eval_defs)
  from empty_authority_unannotated
    [where ipv6_ok = ipv6_ok and href = "''mailto:docs@example.com''"
      and config = "[''site_url'' \<mapsto> PyStr ''https://docs.example.com'']"
      and full_match = "''<a href=\"mailto:docs@example.com\">''" and siteURL = siteURL]
    n f
  show "urlparse_netloc ipv6_ok ''mailto:docs@example.com'' = Inr []
     \<and> urlparse_netloc ipv6_ok ''#install'' = Inr []
     \<and> replace_external_link ipv6_ok [''site_url'' \<mapsto> PyStr ''https://docs.example.com'']
         ''<a href=\"mailto:docs@example.com\">'' ''mailto:docs@example.com''
       = Inr ''<a href=\"mailto:docs@example.com\">''
     \<and> annotate ipv6_ok ''<a href=\"../page/\">p</a>'' siteURL = Inr ''<a href=\"../page/\">p</a>''"
    by simp
qed

text \<open>
  C9. The result of \<^verbatim>\<open>on_page_content\<close> depends on \<^verbatim>\<open>html\<close> and on the \<^verbatim>\<open>site_url\<close>
  entry of \<^verbatim>\<open>config\<close> only: two calls with the same \<^verbatim>\<open>html\<close> and the same
  \<^verbatim>\<open>site_url\<close> entry return the same result, whatever \<^verbatim>\<open>page\<close>, \<^verbatim>\<open>files\<close> and the other
  entries of \<^verbatim>\<open>config\<close> are.
\<close>

theorem on_page_content_noninterference:
  assumes "config ''site_url'' = config' ''site_url''"
  shows "on_page_content ipv6_ok html page config files
         = on_page_content ipv6_ok html page' config' files'"
proof -
  have g: "config_get config ''site_url'' (PyStr []) = config_get config' ''site_url'' (PyStr [])"
    by (simp add: config_get_def assms)
  have "replace_external_link ipv6_ok config = replace_external_link ipv6_ok config'"
    by (intro ext) (unfold replace_external_link_def g, rule refl)
  then show ?thesis by (simp add: on_page_content_def)
qed

theorem on_page_content_noninterference_witness:
  "\<forall>ipv6_ok.
     on_page_content ipv6_ok ''<a href=\"https://other.org/x\">x</a>'' ''index.md''
         [''site_url'' \<mapsto> PyStr ''https://docs.example.com'', ''site_name'' \<mapsto> PyStr ''Docs'']
         [''index.md'', ''about.md'']
     = on_page_content ipv6_ok ''<a href=\"https://other.org/x\">x</a>'' ''about.md''
         [''site_url'' \<mapsto> PyStr ''https://docs.example.com''] ([] :: string list)"
proof
  fix ipv6_ok :: "string \<Rightarrow> bool"
  have "[''site_url'' \<mapsto> PyStr ''https://docs.example.com'', ''site_name'' \<mapsto> PyStr ''Docs'']
          ''site_url''
        = [''site_url'' \<mapsto> PyStr ''https://docs.example.com''] ''site_url''"
    by simp
  then show "on_page_content ipv6_ok ''<a href=\"https://other.org/x\">x</a>'' ''index.md''
         [''site_url'' \<mapsto> PyStr ''https://docs.example.com'', ''site_name'' \<mapsto> PyStr ''Docs'']
         [''index.md'', ''about.md'']
     = on_page_content ipv6_ok ''<a href=\"https://other.org/x\">x</a>'' ''about.md''
         [''site_url'' \<mapsto> PyStr ''https://docs.example.com''] ([] :: string list)"
    by (rule on_page_content_noninterference)
qed

text \<open>
  C10. In an external tag the missing directives are placed before every occurrence
  of \<^verbatim>\<open>href=\<close>: if the tag is \<open>join ''href='' parts\<close>, where no part contains
  \<^verbatim>\<open>href=\<close>, the result is the same parts joined by the missing directives followed
  by \<^verbatim>\<open>href=\<close>. Every tag is of this form (lemma \<open>href_parts_exist\<close>). An occurrence
  inside the quoted value of the \<^verbatim>\<open>href\<close> attribute is rewritten like the others.
\<close>

theorem directives_before_every_href:
  assumes "urlparse_netloc ipv6_ok href = Inr netloc" and "netloc \<noteq> []"
    and "netloc \<noteq> ''localhost''" and "netloc \<noteq> ''127.0.0.1''"
    and "config ''site_url'' = Some (PyStr siteURL)" and "siteURL \<noteq> []"
    and "urlparse_netloc ipv6_ok siteURL = Inr site_domain" and "netloc \<noteq> site_domain"
    and "parts \<noteq> []" and "\<forall>p \<in> set parts. \<not> contains ''href='' p"
  shows "replace_external_link ipv6_ok config (join ''href='' parts) href
         = Inr (join (missing_directives (join ''href='' parts) @ ''href='') parts)"
proof -
  let ?m = "join ''href='' parts"
  have "replace_external_link ipv6_ok config ?m href = Inr (add_attributes ?m)"
    using assms(1-8) by (rule replace_external_link_external)
  also have "add_attributes ?m = replace_scan ''href='' (missing_directives ?m @ ''href='') ?m"
    by (simp add: add_attributes_eq str_replace_def)
  also have "\<dots> = join (missing_directives ?m @ ''href='') parts"
    using assms(9,10) by (rule replace_scan_join)
  finally show ?thesis .
qed

theorem directives_before_every_href_witness:
  "\<forall>ipv6_ok.
     replace_external_link ipv6_ok [''site_url'' \<mapsto> PyStr ''https://docs.example.com'']
         ''<a href=\"https://other.org/?href=1\">'' ''https://other.org/?href=1''
       = Inr ''<a target=\"_blank\" rel=\"noopener noreferrer\" href=\"https://other.org/?target=\"_blank\" rel=\"noopener noreferrer\" href=1\">''"
proof
  fix ipv6_ok :: "string \<Rightarrow> bool"
  have n: "urlparse_netloc ipv6_ok ''https://other.org/?href=1'' = Inr ''other.org''"
    and d: "urlparse_netloc ipv6_ok ''https://docs.example.com'' = Inr ''docs.example.com''"
    by (simp_all add: eval_defs)
  have p: "\<forall>p \<in> set [''<a '', ''\"https://other.org/?'', ''1\">'']. \<not> contains ''href='' p"
    by simp
  from directives_before_every_href
    [where ipv6_ok = ipv6_ok and href = "''https://other.org/?href=1''" and netloc = "''other.org''"
      and config = "[''site_url'' \<mapsto> PyStr ''https://docs.example.com'']"
      and siteURL = "''https://docs.example.com''" and site_domain = "''docs.example.com''"
      and parts = "[''<a '', ''\"https://other.org/?'', ''1\">'']", OF n _ _ _ _ _ d _ _ p]
  show "replace_external_link ipv6_ok [''site_url'' \<mapsto> PyStr ''https://docs.example.com'']
         ''<a href=\"https://other.org/?href=1\">'' ''https://other.org/?href=1''
       = Inr ''<a target=\"_blank\" rel=\"noopener noreferrer\" href=\"https://other.org/?target=\"_blank\" rel=\"noopener noreferrer\" href=1\">''"
    by (simp add: missing_directives_def)
qed

end
